theory Spec2Isabelle
  imports Main "HOL-Library.Word"
begin

section \<open>The terminal component of src/components/Terminal.tsx\<close>

text \<open>
  The component is a React function component: eight \<open>useState\<close> cells, one effect
  that drives the auto-typing of the prompts with \<open>setInterval\<close> and \<open>setTimeout\<close>,
  and three event handlers wired to a hidden input and a button. The model is a record
  of the state cells together with the timers that are pending, one function per
  callback of the source, and a function \<open>fire\<close> that delivers one event the way the
  rendered tree allows it. JavaScript runs each callback to completion, so one event
  is one transition, and the state updates of one callback take effect together. The
  two effects that scroll and focus, and \<open>handleContainerClick\<close>, which only focuses
  the input, write no state cell and are left out.
\<close>

subsection \<open>Strings\<close>

text \<open>
  A JavaScript string is a sequence of 16-bit code units. The literals of the source are
  ASCII, one code unit per character.
\<close>

type_synonym jsstring = "16 word list"

definition utf16 :: "string \<Rightarrow> jsstring" where
  "utf16 cs = map (\<lambda>c. of_char c) cs"

text \<open>
  \<open>String.prototype.trim\<close> strips the code units that ECMAScript calls WhiteSpace or
  LineTerminator from both ends: TAB, LF, VT, FF, CR, SP, NBSP, U+1680, U+2000 to U+200A,
  U+2028, U+2029, U+202F, U+205F, U+3000 and U+FEFF.
\<close>

definition isWhiteSpace :: "16 word \<Rightarrow> bool" where
  "isWhiteSpace c \<longleftrightarrow>
     c \<in> set [0x09, 0x0A, 0x0B, 0x0C, 0x0D, 0x20, 0xA0, 0x1680,
               0x2028, 0x2029, 0x202F, 0x205F, 0x3000, 0xFEFF]
     \<or> (0x2000 \<le> c \<and> c \<le> 0x200A)"

definition trim :: "jsstring \<Rightarrow> jsstring" where
  "trim t = rev (dropWhile isWhiteSpace (rev (dropWhile isWhiteSpace t)))"

text \<open>\<open>t.charAt(i)\<close> is the one-unit string at index \<open>i\<close>, and the empty string out of range.\<close>

definition charAt :: "jsstring \<Rightarrow> nat \<Rightarrow> jsstring" where
  "charAt t i = (if i < length t then [t ! i] else [])"

text \<open>\<open>n.toString()\<close> for a non-negative integer: its decimal digits.\<close>

fun toString :: "nat \<Rightarrow> jsstring" where
  "toString n =
     (if n < 10 then [of_nat (48 + n)]
      else toString (n div 10) @ [of_nat (48 + n mod 10)])"

declare toString.simps [simp del]

subsection \<open>Types and constants (Terminal.tsx, lines 3 to 21)\<close>

datatype LineType = System | User

record TerminalLine =
  lineId :: jsstring
  lineType :: LineType
  lineText :: jsstring

definition PROMPTS :: "jsstring list" where
  "PROMPTS = [utf16 ''Enter Github Repository Link'',
              utf16 ''Enter Team Name'',
              utf16 ''Enter Team Leader Name'']"

subsection \<open>State (lines 24 to 48) and pending timers\<close>

text \<open>
  The closure of the \<open>setInterval\<close> callback of one run of the effect: the constant
  \<open>targetText\<close> and the mutable \<open>charIndex\<close>.
\<close>

record autotype =
  targetText :: jsstring
  charIndex :: nat

text \<open>
  \<open>step\<close> is a JavaScript number that starts at 0 and is only ever incremented by 1, so
  it is a natural number. \<open>interval\<close> is the live interval of the auto-type effect,
  if any; \<open>timeouts\<close> holds the \<open>targetText\<close> of each pending 300 ms callback, oldest
  first (the source keeps no handle to them); \<open>agentTimeouts\<close> holds the values captured
  by each pending 3000 ms callback of \<open>handleRunAgent\<close>, and \<open>console\<close> what those
  callbacks have logged.
\<close>

record terminal =
  history :: "TerminalLine list"
  step :: nat
  currentText :: jsstring
  repoLink :: jsstring
  teamName :: jsstring
  leaderName :: jsstring
  isLoading :: bool
  isTyping :: bool
  interval :: "autotype option"
  timeouts :: "jsstring list"
  agentTimeouts :: "(jsstring \<times> jsstring \<times> jsstring) list"
  console :: "(jsstring \<times> jsstring \<times> jsstring) list"

text \<open>The initial values of the \<open>useState\<close> cells; no timer is pending.\<close>

definition initial :: terminal where
  "initial = \<lparr>history = [], step = 0, currentText = [], repoLink = [], teamName = [],
              leaderName = [], isLoading = False, isTyping = False, interval = None,
              timeouts = [], agentTimeouts = [], console = []\<rparr>"

subsection \<open>The auto-type effect (lines 77 to 113)\<close>

text \<open>
  The body of the effect, run after the first render and after every render in which
  \<open>step\<close> has changed: on a system step it raises the typing flag, clears the current
  text and starts an interval whose closure holds the prompt and \<open>charIndex = 0\<close>.
\<close>

definition autoTypeEffect :: "terminal \<Rightarrow> terminal" where
  "autoTypeEffect s =
     (if step s mod 2 = 0 \<and> step s < 6 then
        s\<lparr>isTyping := True,
          currentText := [],
          interval := Some \<lparr>targetText = PROMPTS ! (step s div 2), charIndex = 0\<rparr>\<rparr>
      else s)"

text \<open>
  The cleanup the effect returns (line 111): \<open>clearInterval(intervalId)\<close> and nothing
  else. React runs it before the next run of the effect and when the component is
  torn down. Only the effect creates an interval, and each run is preceded by the
  cleanup of the run before, so at most one interval is live and clearing the slot is
  clearing that run's interval.
\<close>

definition autoTypeCleanup :: "terminal \<Rightarrow> terminal" where
  "autoTypeCleanup s = s\<lparr>interval := None\<rparr>"

text \<open>
  The interval callback (lines 86 to 109). While characters remain it calls
  \<open>setCurrentText((prev) => prev + targetText.charAt(charIndex))\<close> and then increments
  \<open>charIndex\<close>. The updater is a closure over the variable \<open>charIndex\<close>, not over its
  value: React's contract for a functional update is that it is queued and applied
  when the component is next rendered, which is after the callback has returned and
  \<open>charIndex\<close> has been incremented. React may instead apply the update inside the
  setter call when its queue is empty. The flag \<open>eager\<close> of a tick says which of the
  two happened: \<open>True\<close> for inside the call (the updater reads \<open>charIndex\<close> as it was),
  \<open>False\<close> for at the next render (the updater reads the incremented \<open>charIndex\<close>).
  When no character remains the callback clears its interval, lowers the typing flag
  and schedules the commit of the prompt 300 ms later.
\<close>

definition intervalCallback :: "bool \<Rightarrow> terminal \<Rightarrow> terminal" where
  "intervalCallback eager s =
     (case interval s of
        None \<Rightarrow> s
      | Some a \<Rightarrow>
          if charIndex a < length (targetText a) then
            s\<lparr>currentText := currentText s @
                 charAt (targetText a) (if eager then charIndex a else charIndex a + 1),
              interval := Some (a\<lparr>charIndex := charIndex a + 1\<rparr>)\<rparr>
          else
            s\<lparr>interval := None,
              isTyping := False,
              timeouts := timeouts s @ [targetText a]\<rparr>)"

text \<open>
  The 300 ms callback (lines 100 to 107), closed over \<open>targetText\<close>: it appends the
  system line, clears the current text and increments \<open>step\<close>. \<open>now\<close> is what
  \<open>Date.now()\<close> returns.
\<close>

definition settleCallback :: "nat \<Rightarrow> jsstring \<Rightarrow> terminal \<Rightarrow> terminal" where
  "settleCallback now target s =
     s\<lparr>history := history s @ [\<lparr>lineId = toString now, lineType = System, lineText = target\<rparr>],
       currentText := [],
       step := step s + 1\<rparr>"

subsection \<open>Handlers (lines 117 to 161)\<close>

definition handleUserInputChange :: "jsstring \<Rightarrow> terminal \<Rightarrow> terminal" where
  "handleUserInputChange v s = (if step s mod 2 \<noteq> 0 then s\<lparr>currentText := v\<rparr> else s)"

definition handleKeyDown :: "jsstring \<Rightarrow> nat \<Rightarrow> terminal \<Rightarrow> terminal" where
  "handleKeyDown key now s =
     (if key = utf16 ''Enter'' \<and> \<not> isTyping s \<and> length (trim (currentText s)) > 0 then
        let val = trim (currentText s);
            s1 = (if step s = 1 then s\<lparr>repoLink := val\<rparr> else s);
            s2 = (if step s = 3 then s1\<lparr>teamName := val\<rparr> else s1);
            s3 = (if step s = 5 then s2\<lparr>leaderName := val\<rparr> else s2)
        in s3\<lparr>history := history s3 @ [\<lparr>lineId = toString now, lineType = User, lineText = val\<rparr>],
              currentText := [],
              step := step s3 + 1\<rparr>
      else s)"

text \<open>
  \<open>handleRunAgent\<close>: a non-empty string is truthy. The 3000 ms callback it schedules
  logs the three values it captured and touches no state cell.
\<close>

definition handleRunAgent :: "terminal \<Rightarrow> terminal" where
  "handleRunAgent s =
     (if step s = 6 \<and> repoLink s \<noteq> [] \<and> teamName s \<noteq> [] \<and> leaderName s \<noteq> [] then
        s\<lparr>isLoading := True,
          agentTimeouts := agentTimeouts s @ [(repoLink s, teamName s, leaderName s)]\<rparr>
      else s)"

definition agentCallback :: "terminal \<Rightarrow> terminal" where
  "agentCallback s =
     (case agentTimeouts s of
        [] \<Rightarrow> s
      | a # as \<Rightarrow> s\<lparr>agentTimeouts := as, console := console s @ [a]\<rparr>)"

definition isButtonEnabled :: "terminal \<Rightarrow> bool" where
  "isButtonEnabled s \<longleftrightarrow>
     step s = 6 \<and> \<not> isLoading s \<and> repoLink s \<noteq> [] \<and> teamName s \<noteq> [] \<and> leaderName s \<noteq> []"

subsection \<open>Events\<close>

text \<open>
  The hidden input, which carries \<open>onChange\<close> and \<open>onKeyDown\<close>, is part of the rendered
  tree only on a user step while nothing is loading (line 247).
\<close>

definition inputMounted :: "terminal \<Rightarrow> bool" where
  "inputMounted s \<longleftrightarrow> step s mod 2 \<noteq> 0 \<and> \<not> isLoading s"

text \<open>
  The effect has the dependency list \<open>[step]\<close>: after a callback that changed \<open>step\<close>,
  React runs the cleanup of the previous run and then the body again.
\<close>

definition afterRender :: "terminal \<Rightarrow> terminal \<Rightarrow> terminal" where
  "afterRender old new =
     (if step new = step old then new else autoTypeEffect (autoTypeCleanup new))"

datatype event =
    IntervalTick bool
  | SettleTimeout nat
  | InputChange jsstring
  | InputKeyDown jsstring nat
  | ButtonClick
  | AgentTimeout

text \<open>
  One event. A timer event does nothing when its timer is not pending; an input event
  reaches its handler only while the input is mounted; a click reaches
  \<open>handleRunAgent\<close> only while the button is not disabled (line 218:
  \<open>disabled={!isButtonEnabled}\<close>).
\<close>

fun fire :: "event \<Rightarrow> terminal \<Rightarrow> terminal" where
  "fire (IntervalTick eager) s = intervalCallback eager s"
| "fire (SettleTimeout now) s =
     (case timeouts s of
        [] \<Rightarrow> s
      | t # ts \<Rightarrow> afterRender s (settleCallback now t (s\<lparr>timeouts := ts\<rparr>)))"
| "fire (InputChange v) s = (if inputMounted s then handleUserInputChange v s else s)"
| "fire (InputKeyDown key now) s =
     (if inputMounted s then afterRender s (handleKeyDown key now s) else s)"
| "fire ButtonClick s = (if isButtonEnabled s then handleRunAgent s else s)"
| "fire AgentTimeout s = agentCallback s"

primrec run :: "event list \<Rightarrow> terminal \<Rightarrow> terminal" where
  "run [] s = s"
| "run (e # es) s = run es (fire e s)"

text \<open>The states a run passes through, the first one included.\<close>

primrec trace :: "event list \<Rightarrow> terminal \<Rightarrow> terminal list" where
  "trace [] s = [s]"
| "trace (e # es) s = s # trace es (fire e s)"

text \<open>The component after its first render: the effect has run once.\<close>

definition mount :: terminal where
  "mount = autoTypeEffect initial"

subsection \<open>A complete session\<close>

text \<open>
  The events of one prompt: a tick for each character, the tick that finds no character
  left, and the 300 ms callback. The events of one answer: the input changes to the
  text, then Enter.
\<close>

definition typePrompt :: "nat \<Rightarrow> bool \<Rightarrow> nat \<Rightarrow> event list" where
  "typePrompt n eager now = replicate (Suc n) (IntervalTick eager) @ [SettleTimeout now]"

definition answer :: "string \<Rightarrow> nat \<Rightarrow> event list" where
  "answer v now = [InputChange (utf16 v), InputKeyDown (utf16 ''Enter'') now]"

definition session :: "event list" where
  "session = typePrompt 28 False 10 @ answer '' a/b '' 20 @
             typePrompt 15 False 30 @ answer ''T R'' 40 @
             typePrompt 22 False 50 @ answer ''Ada'' 60"

subsection \<open>Notions used to state the properties\<close>

text \<open>
  On a system step either the interval is live, the flag is up and nothing is waiting
  to commit, or the interval is gone, the flag is down and exactly the prompt of this
  step is waiting to commit. On every other step no timer of the effect is pending.
\<close>

definition sysPhase :: "terminal \<Rightarrow> bool" where
  "sysPhase s \<longleftrightarrow>
     (case interval s of
        Some a \<Rightarrow> isTyping s \<and> timeouts s = [] \<and> targetText a = PROMPTS ! (step s div 2)
      | None \<Rightarrow> \<not> isTyping s \<and> timeouts s = [PROMPTS ! (step s div 2)])"

definition idlePhase :: "terminal \<Rightarrow> bool" where
  "idlePhase s \<longleftrightarrow> interval s = None \<and> timeouts s = [] \<and> \<not> isTyping s"

definition wf :: "terminal \<Rightarrow> bool" where
  "wf s \<longleftrightarrow>
     step s \<le> 6 \<and> length (history s) = step s \<and>
     (if step s mod 2 = 0 \<and> step s < 6 then sysPhase s else idlePhase s) \<and>
     (repoLink s \<noteq> [] \<longleftrightarrow> 2 \<le> step s) \<and>
     (teamName s \<noteq> [] \<longleftrightarrow> 4 \<le> step s) \<and>
     (leaderName s \<noteq> [] \<longleftrightarrow> 6 \<le> step s) \<and>
     (isLoading s \<longrightarrow> step s = 6)"

text \<open>
  The three answers by index: \<open>repoLink\<close>, \<open>teamName\<close>, \<open>leaderName\<close>.
\<close>

definition answerSlot :: "nat \<Rightarrow> terminal \<Rightarrow> jsstring" where
  "answerSlot i s = (if i = 0 then repoLink s else if i = 1 then teamName s else leaderName s)"

text \<open>
  An event writes answer \<open>i\<close> when it makes \<open>handleKeyDown\<close> call the setter of that
  answer (lines 129 to 131): the input is mounted, the guard of line 124 holds and
  \<open>step\<close> is \<open>2 * i + 1\<close>. \<open>slotWrites\<close> counts such events along a run.
\<close>

definition writesSlot :: "nat \<Rightarrow> event \<Rightarrow> terminal \<Rightarrow> bool" where
  "writesSlot i e s \<longleftrightarrow>
     (case e of
        InputKeyDown key now \<Rightarrow>
          inputMounted s \<and> key = utf16 ''Enter'' \<and> \<not> isTyping s \<and>
          length (trim (currentText s)) > 0 \<and> step s = 2 * i + 1
      | _ \<Rightarrow> False)"

primrec slotWrites :: "nat \<Rightarrow> event list \<Rightarrow> terminal \<Rightarrow> nat" where
  "slotWrites i [] s = 0"
| "slotWrites i (e # es) s = (if writesSlot i e s then 1 else 0) + slotWrites i es (fire e s)"

section \<open>General facts\<close>

lemma run_append: "run (es @ fs) s = run fs (run es s)"
  by (induction es arbitrary: s) simp_all

lemma trace_starts: "\<exists>ts. trace es s = s # ts"
  by (cases es) simp_all

subsection \<open>The step counter moves by at most one, upwards\<close>

lemma step_fire: "step (fire e s) = step s \<or> step (fire e s) = Suc (step s)"
  by (cases e)
     (auto simp: intervalCallback_def afterRender_def settleCallback_def autoTypeEffect_def
        autoTypeCleanup_def handleUserInputChange_def handleKeyDown_def handleRunAgent_def
        agentCallback_def Let_def
      split: option.splits list.splits)

lemma step_le_fire: "step s \<le> step (fire e s)"
  using step_fire [of e s] by auto

lemma step_le_run: "step s \<le> step (run es s)"
  by (induction es arbitrary: s) (auto intro: order_trans [OF step_le_fire])

lemma steps_visited: "remdups_adj (map step (trace es s)) = [step s ..< Suc (step (run es s))]"
proof (induction es arbitrary: s)
  case Nil
  show ?case by simp
next
  case (Cons e es)
  obtain ts where ts: "trace es (fire e s) = fire e s # ts"
    using trace_starts by blast
  have ih: "remdups_adj (step (fire e s) # map step ts) =
            [step (fire e s) ..< Suc (step (run es (fire e s)))]"
    using Cons [of "fire e s"] ts by simp
  have le: "step (fire e s) \<le> step (run es (fire e s))"
    by (rule step_le_run)
  from step_fire [of e s] show ?case
  proof
    assume "step (fire e s) = step s"
    then show ?thesis using ih ts by simp
  next
    assume "step (fire e s) = Suc (step s)"
    then show ?thesis using ih ts le by (simp add: upt_conv_Cons)
  qed
qed

subsection \<open>The history only grows at its end\<close>

lemma history_fire: "\<exists>ys. history (fire e s) = history s @ ys"
  by (cases e)
     (auto simp: intervalCallback_def afterRender_def settleCallback_def autoTypeEffect_def
        autoTypeCleanup_def handleUserInputChange_def handleKeyDown_def handleRunAgent_def
        agentCallback_def Let_def
      split: option.splits list.splits)

lemma history_run: "\<exists>ys. history (run es s) = history s @ ys"
proof (induction es arbitrary: s)
  case Nil
  show ?case by simp
next
  case (Cons e es)
  obtain ys where a: "history (fire e s) = history s @ ys"
    using history_fire by blast
  obtain zs where b: "history (run es (fire e s)) = history (fire e s) @ zs"
    using Cons by blast
  show ?case using a b by simp
qed

subsection \<open>An invariant of the reachable states\<close>

lemma odd_step_cases: "(n::nat) \<le> 6 \<Longrightarrow> n mod 2 \<noteq> 0 \<Longrightarrow> n = 1 \<or> n = 3 \<or> n = 5"
  by presburger

lemma even_step_cases: "(n::nat) < 6 \<Longrightarrow> n mod 2 = 0 \<Longrightarrow> n = 0 \<or> n = 2 \<or> n = 4"
  by presburger

lemma wf_mount: "wf mount"
  by (simp add: wf_def mount_def initial_def autoTypeEffect_def sysPhase_def)

lemma wf_intervalCallback: "wf s \<Longrightarrow> wf (intervalCallback eager s)"
  by (auto simp: wf_def intervalCallback_def sysPhase_def idlePhase_def
      split: option.splits if_splits)

lemma wf_handleUserInputChange: "wf s \<Longrightarrow> wf (handleUserInputChange v s)"
  by (auto simp: wf_def handleUserInputChange_def sysPhase_def idlePhase_def
      split: option.splits if_splits)

lemma wf_handleRunAgent: "wf s \<Longrightarrow> wf (handleRunAgent s)"
  by (auto simp: wf_def handleRunAgent_def sysPhase_def idlePhase_def
      split: option.splits if_splits)

lemma wf_agentCallback: "wf s \<Longrightarrow> wf (agentCallback s)"
  by (auto simp: wf_def agentCallback_def sysPhase_def idlePhase_def
      split: option.splits list.splits if_splits)

lemma wf_settle:
  assumes "wf s" and "timeouts s = t # ts"
  shows "wf (afterRender s (settleCallback now t (s\<lparr>timeouts := ts\<rparr>)))"
proof -
  from assms have "step s mod 2 = 0" and "step s < 6"
    by (auto simp: wf_def idlePhase_def split: if_splits)
  then consider "step s = 0" | "step s = 2" | "step s = 4"
    using even_step_cases [of "step s"] by auto
  then show ?thesis
    using assms
    by cases
       (auto simp: wf_def afterRender_def settleCallback_def autoTypeEffect_def
          autoTypeCleanup_def sysPhase_def idlePhase_def
        split: option.splits if_splits)
qed

lemma wf_keyDown:
  assumes "wf s" and "inputMounted s"
  shows "wf (afterRender s (handleKeyDown key now s))"
proof -
  from assms have "step s \<le> 6" and "step s mod 2 \<noteq> 0"
    by (auto simp: wf_def inputMounted_def)
  then consider "step s = 1" | "step s = 3" | "step s = 5"
    using odd_step_cases [of "step s"] by auto
  then show ?thesis
    using assms
    by cases
       (auto simp: wf_def afterRender_def handleKeyDown_def autoTypeEffect_def Let_def
          autoTypeCleanup_def sysPhase_def idlePhase_def inputMounted_def
        split: option.splits if_splits)
qed

lemma wf_fire: "wf s \<Longrightarrow> wf (fire e s)"
  by (cases e)
     (auto simp: wf_intervalCallback wf_handleUserInputChange wf_handleRunAgent
        wf_agentCallback wf_settle wf_keyDown
      split: list.splits)

lemma wf_run: "wf s \<Longrightarrow> wf (run es s)"
  by (induction es arbitrary: s) (auto simp: wf_fire)

lemma wf_reachable: "wf (run es mount)"
  by (rule wf_run [OF wf_mount])

subsection \<open>The state after the complete session\<close>

lemma session_final:
  "run session mount =
     \<lparr>history =
        [\<lparr>lineId = toString 10, lineType = System, lineText = PROMPTS ! 0\<rparr>,
         \<lparr>lineId = toString 20, lineType = User, lineText = utf16 ''a/b''\<rparr>,
         \<lparr>lineId = toString 30, lineType = System, lineText = PROMPTS ! 1\<rparr>,
         \<lparr>lineId = toString 40, lineType = User, lineText = utf16 ''T R''\<rparr>,
         \<lparr>lineId = toString 50, lineType = System, lineText = PROMPTS ! 2\<rparr>,
         \<lparr>lineId = toString 60, lineType = User, lineText = utf16 ''Ada''\<rparr>],
      step = 6, currentText = [], repoLink = utf16 ''a/b'', teamName = utf16 ''T R'',
      leaderName = utf16 ''Ada'', isLoading = False, isTyping = False, interval = None,
      timeouts = [], agentTimeouts = [], console = []\<rparr>"
  by code_simp

lemma session_running:
  "run (session @ [ButtonClick]) mount =
     (run session mount)\<lparr>isLoading := True,
        agentTimeouts := [(utf16 ''a/b'', utf16 ''T R'', utf16 ''Ada'')]\<rparr>"
  by (simp add: run_append session_final isButtonEnabled_def handleRunAgent_def utf16_def)

lemma awaiting_first_answer:
  "run (typePrompt 28 False 10) mount =
     \<lparr>history = [\<lparr>lineId = toString 10, lineType = System, lineText = PROMPTS ! 0\<rparr>],
      step = 1, currentText = [], repoLink = [], teamName = [], leaderName = [],
      isLoading = False, isTyping = False, interval = None, timeouts = [],
      agentTimeouts = [], console = []\<rparr>"
  by code_simp

lemma blank_second_answer:
  "run (typePrompt 28 False 10 @ answer '' a/b '' 20 @ typePrompt 15 False 30 @
        [InputChange (utf16 ''   '')]) mount =
     \<lparr>history =
        [\<lparr>lineId = toString 10, lineType = System, lineText = PROMPTS ! 0\<rparr>,
         \<lparr>lineId = toString 20, lineType = User, lineText = utf16 ''a/b''\<rparr>,
         \<lparr>lineId = toString 30, lineType = System, lineText = PROMPTS ! 1\<rparr>],
      step = 3, currentText = utf16 ''   '', repoLink = utf16 ''a/b'', teamName = [],
      leaderName = [], isLoading = False, isTyping = False, interval = None, timeouts = [],
      agentTimeouts = [], console = []\<rparr>"
  by code_simp

lemma settle_pending:
  "run (replicate 29 (IntervalTick False)) mount =
     \<lparr>history = [], step = 0, currentText = utf16 ''nter Github Repository Link'',
      repoLink = [], teamName = [], leaderName = [], isLoading = False, isTyping = False,
      interval = None, timeouts = [PROMPTS ! 0], agentTimeouts = [], console = []\<rparr>"
  by code_simp

subsection \<open>Loading is never undone; a rejected confirm changes nothing\<close>

lemma isLoading_fire: "isLoading s \<Longrightarrow> isLoading (fire e s)"
  by (cases e)
     (auto simp: intervalCallback_def afterRender_def settleCallback_def autoTypeEffect_def
        autoTypeCleanup_def handleUserInputChange_def handleKeyDown_def handleRunAgent_def
        agentCallback_def Let_def
      split: option.splits list.splits)

lemma isLoading_run: "isLoading s \<Longrightarrow> isLoading (run es s)"
  by (induction es arbitrary: s) (auto simp: isLoading_fire)

lemma keyDown_rejected:
  assumes "trim (currentText s) = [] \<or> isTyping s \<or> step s mod 2 = 0"
  shows "fire (InputKeyDown key now) s = s"
  using assms by (auto simp: inputMounted_def handleKeyDown_def afterRender_def)

subsection \<open>When an answer is written\<close>

lemma writesSlot_step:
  "writesSlot i e s \<Longrightarrow> step s = 2 * i + 1 \<and> step (fire e s) = 2 * i + 2"
  by (cases e)
     (auto simp: writesSlot_def handleKeyDown_def afterRender_def autoTypeEffect_def
        autoTypeCleanup_def Let_def)

lemma writesSlot_value:
  "i < 3 \<Longrightarrow> writesSlot i e s \<Longrightarrow> answerSlot i (fire e s) = trim (currentText s)"
  by (cases e)
     (auto simp: writesSlot_def answerSlot_def handleKeyDown_def afterRender_def
        autoTypeEffect_def autoTypeCleanup_def Let_def)

lemma slot_change_is_write:
  "i < 3 \<Longrightarrow> answerSlot i (fire e s) \<noteq> answerSlot i s \<Longrightarrow> writesSlot i e s"
  by (cases e)
     (auto simp: writesSlot_def answerSlot_def intervalCallback_def afterRender_def
        settleCallback_def autoTypeEffect_def autoTypeCleanup_def handleUserInputChange_def
        handleKeyDown_def handleRunAgent_def agentCallback_def Let_def
      split: option.splits list.splits if_splits)

lemma user_step_left_by_write:
  assumes "wf s" and "step s = 2 * i + 1" and "step (fire e s) \<noteq> step s"
  shows "writesSlot i e s"
proof -
  from assms have idle: "interval s = None" "timeouts s = []" "\<not> isTyping s"
    by (auto simp: wf_def idlePhase_def split: if_splits)
  show ?thesis
  proof (cases e)
    case (InputKeyDown key now)
    then show ?thesis
      using assms idle
      by (auto simp: writesSlot_def handleKeyDown_def afterRender_def split: if_splits)
  qed (use assms idle in \<open>auto simp: intervalCallback_def handleUserInputChange_def
         handleRunAgent_def agentCallback_def split: list.splits if_splits\<close>)
qed

lemma slot_fixed_fire: "2 * i + 2 \<le> step s \<Longrightarrow> answerSlot i (fire e s) = answerSlot i s"
  by (cases e)
     (auto simp: answerSlot_def intervalCallback_def afterRender_def
        settleCallback_def autoTypeEffect_def autoTypeCleanup_def handleUserInputChange_def
        handleKeyDown_def handleRunAgent_def agentCallback_def Let_def
      split: option.splits list.splits)

lemma slot_fixed_run: "2 * i + 2 \<le> step s \<Longrightarrow> answerSlot i (run es s) = answerSlot i s"
proof (induction es arbitrary: s)
  case Nil
  show ?case by simp
next
  case (Cons e es)
  have "2 * i + 2 \<le> step (fire e s)"
    using Cons.prems step_le_fire [of s e] by simp
  then show ?case
    using Cons.IH [of "fire e s"] Cons.prems by (simp add: slot_fixed_fire)
qed

lemma slotWrites_count:
  "wf s \<Longrightarrow>
   slotWrites i es s = (if step s \<le> 2 * i + 1 \<and> 2 * i + 2 \<le> step (run es s) then 1 else 0)"
proof (induction es arbitrary: s)
  case Nil
  show ?case by simp
next
  case (Cons e es)
  let ?s' = "fire e s"
  have wf': "wf ?s'" using Cons.prems by (rule wf_fire)
  have ih: "slotWrites i es ?s' =
            (if step ?s' \<le> 2 * i + 1 \<and> 2 * i + 2 \<le> step (run es ?s') then 1 else 0)"
    by (rule Cons.IH [OF wf'])
  have mono: "step ?s' \<le> step (run es ?s')" by (rule step_le_run)
  show ?case
  proof (cases "writesSlot i e s")
    case True
    then have "step s = 2 * i + 1" and "step ?s' = 2 * i + 2"
      using writesSlot_step by blast+
    then show ?thesis using True ih mono by simp
  next
    case False
    have "step s = 2 * i + 1 \<Longrightarrow> step ?s' = step s"
      using user_step_left_by_write [OF Cons.prems, of i e] False by blast
    moreover have "step ?s' = step s \<or> step ?s' = Suc (step s)" by (rule step_fire)
    ultimately show ?thesis using False ih mono by auto
  qed
qed

subsection \<open>What the ticks type\<close>

text \<open>
  From a live interval at \<open>charIndex\<close>, \<open>n\<close> ticks within the prompt append the \<open>n\<close>
  units that start at \<open>charIndex\<close> when each update is applied inside the setter call,
  and the units that start one later when each is applied at the next render (the last
  of them out of range, so empty).
\<close>

lemma charAt_take: "charAt t k @ take n (drop (Suc k) t) = take (Suc n) (drop k t)"
  by (cases "k < length t") (simp_all add: charAt_def Cons_nth_drop_Suc [symmetric])

lemma typed_text:
  "interval s = Some a \<Longrightarrow> charIndex a + n \<le> length (targetText a) \<Longrightarrow>
   currentText (run (replicate n (IntervalTick eager)) s) =
     currentText s @ take n (drop (charIndex a + (if eager then 0 else 1)) (targetText a)) \<and>
   interval (run (replicate n (IntervalTick eager)) s) = Some (a\<lparr>charIndex := charIndex a + n\<rparr>)"
proof (induction n arbitrary: s a)
  case 0
  then show ?case by simp
next
  case (Suc n)
  let ?k = "charIndex a + (if eager then 0 else 1)"
  let ?a' = "a\<lparr>charIndex := charIndex a + 1\<rparr>"
  let ?s' = "fire (IntervalTick eager) s"
  have lt: "charIndex a < length (targetText a)" using Suc.prems by simp
  have s': "interval ?s' = Some ?a'" "currentText ?s' = currentText s @ charAt (targetText a) ?k"
    using Suc.prems lt by (simp_all add: intervalCallback_def)
  have "charIndex ?a' + n \<le> length (targetText ?a')" using Suc.prems by simp
  from Suc.IH [OF s'(1) this]
  have ih: "currentText (run (replicate n (IntervalTick eager)) ?s') =
          currentText ?s' @ take n (drop (Suc ?k) (targetText a))"
       "interval (run (replicate n (IntervalTick eager)) ?s') =
          Some (a\<lparr>charIndex := charIndex a + Suc n\<rparr>)"
    by simp_all
  show ?case
    using ih s'(2) charAt_take [of "targetText a" ?k n] by (simp del: fire.simps)
qed

lemma typed_after_effect:
  assumes "step s mod 2 = 0" and "step s < 6"
  shows "currentText (run (replicate (length (PROMPTS ! (step s div 2))) (IntervalTick eager))
            (autoTypeEffect s)) =
         (if eager then PROMPTS ! (step s div 2) else tl (PROMPTS ! (step s div 2)))"
proof -
  let ?t = "PROMPTS ! (step s div 2)"
  let ?a = "\<lparr>targetText = ?t, charIndex = 0\<rparr>"
  have i: "interval (autoTypeEffect s) = Some ?a" and c: "currentText (autoTypeEffect s) = []"
    using assms by (simp_all add: autoTypeEffect_def)
  have "charIndex ?a + length ?t \<le> length (targetText ?a)" by simp
  from typed_text [OF i this, of eager] c show ?thesis
    by (simp add: drop_Suc)
qed

subsection \<open>A pending commit belongs to the current step\<close>

text \<open>
  In a reachable state with a 300 ms callback pending, that callback is the only one,
  it holds the prompt of the current step, the step is a system step and the interval
  is gone; and the only event that changes \<open>step\<close> there is that callback firing.
\<close>

lemma pending_commit_is_current:
  assumes "timeouts (run es mount) \<noteq> []"
  shows "timeouts (run es mount) = [PROMPTS ! (step (run es mount) div 2)] \<and>
         step (run es mount) mod 2 = 0 \<and> step (run es mount) < 6 \<and>
         interval (run es mount) = None"
  using assms wf_reachable [of es]
  by (auto simp: wf_def sysPhase_def idlePhase_def split: if_splits option.splits)

lemma only_commit_ends_settle:
  assumes "timeouts (run es mount) \<noteq> []"
    and "step (fire e (run es mount)) \<noteq> step (run es mount)"
  shows "\<exists>now. e = SettleTimeout now"
proof -
  have even: "step (run es mount) mod 2 = 0"
    using pending_commit_is_current [OF assms(1)] by simp
  show ?thesis
  proof (cases e)
    case (SettleTimeout now)
    then show ?thesis by simp
  qed (use assms(2) even in \<open>auto simp: intervalCallback_def inputMounted_def
         handleUserInputChange_def handleRunAgent_def agentCallback_def
         split: option.splits list.splits if_splits\<close>)
qed

section \<open>The claims\<close>

text \<open>
  C1. The history is append-only: whatever the state and whatever events follow, the
  history afterwards is the history before with lines added at its end, so no committed
  line is removed, changed or moved. In every state the component can reach, the length
  of the history is the value of \<open>step\<close>: each commit appends its line in the same
  callback that increments \<open>step\<close>.
\<close>

theorem history_append_only:
  "(\<exists>ys. history (run es s) = history s @ ys) \<and>
   length (history (run es mount)) = step (run es mount)"
proof
  show "\<exists>ys. history (run es s) = history s @ ys"
    by (rule history_run)
next
  show "length (history (run es mount)) = step (run es mount)"
    using wf_reachable [of es] by (simp add: wf_def)
qed

theorem history_append_only_witness:
  "(\<exists>ys. history (run session mount) = history mount @ ys) \<and>
   length (history (run session mount)) = 6"
  using history_append_only [of session mount] by (simp add: session_final)

text \<open>
  C2. The step counter starts at 0, is at most 6 in every reachable state, and every
  event leaves it as it is or adds exactly 1. The values it takes along any run from
  the start, repeats of the same value dropped, are 0, 1, ... up to its last value with
  none skipped and none revisited; along the complete session they are 0 to 6.
\<close>

theorem step_counts_up:
  "step initial = 0 \<and> step mount = 0 \<and>
   step (run es mount) \<le> 6 \<and>
   (step (fire e s) = step s \<or> step (fire e s) = step s + 1) \<and>
   remdups_adj (map step (trace es mount)) = [0 ..< step (run es mount) + 1] \<and>
   remdups_adj (map step (trace session mount)) = [0, 1, 2, 3, 4, 5, 6]"
proof -
  have m: "step mount = 0"
    by (simp add: mount_def initial_def autoTypeEffect_def)
  have a: "remdups_adj (map step (trace es mount)) = [0 ..< step (run es mount) + 1]" for es
    using steps_visited [of es mount] m by simp
  have "[0 ..< 6 + 1] = [0, 1, 2, 3, 4, 5, 6::nat]"
    by code_simp
  moreover have "step (run session mount) = 6"
    by (simp add: session_final)
  ultimately have b: "remdups_adj (map step (trace session mount)) = [0, 1, 2, 3, 4, 5, 6]"
    using a [of session] by simp
  have c: "step (run es mount) \<le> 6"
    using wf_reachable [of es] by (simp add: wf_def)
  show ?thesis
    using m a [of es] b c step_fire [of e s] by (simp add: initial_def)
qed

text \<open>
  C3. Claimed: leaving a step, or tearing the component down, while its auto-type
  animation is outstanding cancels every scheduled action of that animation. The
  cleanup of the effect is all the component runs on either occasion. It cancels the
  interval, so that a tick after it changes nothing and no further character is
  written. It never removes a pending 300 ms callback, for any state: in the state
  reached from the start by the 29 ticks of the first prompt, where the animation is in
  its settle delay, the commit is scheduled, and it is still scheduled after the
  cleanup. What the setter calls of that callback do once the component is gone is not
  part of this model. While the component is mounted a pending commit is always the
  one of the current step, and only that commit changes \<open>step\<close>
  (\<open>pending_commit_is_current\<close>, \<open>only_commit_ends_settle\<close>).
\<close>

theorem settle_timer_survives_cleanup:
  "timeouts (autoTypeCleanup s) = timeouts s \<and>
   interval (autoTypeCleanup s) = None \<and>
   fire (IntervalTick eager) (autoTypeCleanup s) = autoTypeCleanup s \<and>
   timeouts (run (replicate 29 (IntervalTick False)) mount) = [PROMPTS ! 0] \<and>
   timeouts (autoTypeCleanup (run (replicate 29 (IntervalTick False)) mount)) = [PROMPTS ! 0]"
  by (simp add: autoTypeCleanup_def intervalCallback_def settle_pending)

text \<open>
  C4. In a state where \<open>step\<close> is below 6, or an answer is empty, or loading has started,
  a click on the button changes nothing. \<open>handleRunAgent\<close> itself returns the state
  unchanged in the first two cases; when loading has started the button is disabled, and
  the handler, were it called, would change no state cell (it would only schedule its
  log again).
\<close>

theorem invoke_rejected_unless_enabled:
  "(step s < 6 \<or> repoLink s = [] \<or> teamName s = [] \<or> leaderName s = [] \<or> isLoading s
      \<longrightarrow> fire ButtonClick s = s) \<and>
   (step s < 6 \<or> repoLink s = [] \<or> teamName s = [] \<or> leaderName s = []
      \<longrightarrow> handleRunAgent s = s) \<and>
   (isLoading s \<longrightarrow> (handleRunAgent s)\<lparr>agentTimeouts := agentTimeouts s\<rparr> = s)"
  by (auto simp: isButtonEnabled_def handleRunAgent_def)

theorem invoke_rejected_unless_enabled_witness:
  "step mount < 6 \<and> fire ButtonClick mount = mount \<and> handleRunAgent mount = mount \<and>
   isLoading (run (session @ [ButtonClick]) mount) \<and>
   fire ButtonClick (run (session @ [ButtonClick]) mount) = run (session @ [ButtonClick]) mount"
proof -
  have a: "step mount < 6"
    by (simp add: mount_def initial_def autoTypeEffect_def)
  have b: "isLoading (run (session @ [ButtonClick]) mount)"
    by (simp add: session_running)
  show ?thesis
    using a b invoke_rejected_unless_enabled [of mount]
      invoke_rejected_unless_enabled [of "run (session @ [ButtonClick]) mount"]
    by simp
qed

text \<open>
  C5. The button is enabled exactly when \<open>step\<close> is 6, nothing is loading and the three
  answers are non-empty; and a click changes the state exactly when the button is
  enabled.
\<close>

theorem gate_enabled_iff:
  "(isButtonEnabled s \<longleftrightarrow>
      step s = 6 \<and> \<not> isLoading s \<and> repoLink s \<noteq> [] \<and> teamName s \<noteq> [] \<and> leaderName s \<noteq> []) \<and>
   (fire ButtonClick s \<noteq> s \<longleftrightarrow> isButtonEnabled s)"
proof
  show "isButtonEnabled s \<longleftrightarrow>
      step s = 6 \<and> \<not> isLoading s \<and> repoLink s \<noteq> [] \<and> teamName s \<noteq> [] \<and> leaderName s \<noteq> []"
    by (simp add: isButtonEnabled_def)
next
  show "fire ButtonClick s \<noteq> s \<longleftrightarrow> isButtonEnabled s"
  proof (cases "isButtonEnabled s")
    case True
    then have "isLoading (fire ButtonClick s)" and "\<not> isLoading s"
      by (simp_all add: isButtonEnabled_def handleRunAgent_def)
    then have "fire ButtonClick s \<noteq> s" by metis
    with True show ?thesis by simp
  next
    case False
    then show ?thesis by simp
  qed
qed

text \<open>
  C6. When the current text is empty after trimming, or the typing flag is up, or \<open>step\<close>
  is even, a key-down event changes nothing at all, whatever the key, and any number
  of such events in a row changes nothing. On an even step this is because the input
  that carries the handler is not mounted.
\<close>

theorem confirm_rejected_is_noop:
  assumes "trim (currentText s) = [] \<or> isTyping s \<or> step s mod 2 = 0"
  shows "fire (InputKeyDown key now) s = s \<and>
         run (map (\<lambda>(k, t). InputKeyDown k t) kts) s = s"
proof
  show "fire (InputKeyDown key now) s = s"
    using assms by (rule keyDown_rejected)
next
  have same: "fire (InputKeyDown k t) s = s" for k t
    using assms by (rule keyDown_rejected)
  show "run (map (\<lambda>(k, t). InputKeyDown k t) kts) s = s"
    by (induction kts) (simp_all add: same split_beta del: fire.simps)
qed

theorem confirm_rejected_is_noop_witness:
  "trim (currentText (run (typePrompt 28 False 10 @ answer '' a/b '' 20 @ typePrompt 15 False 30 @
        [InputChange (utf16 ''   '')]) mount)) = [] \<and>
   run (typePrompt 28 False 10 @ answer '' a/b '' 20 @ typePrompt 15 False 30 @
        [InputChange (utf16 ''   ''), InputKeyDown (utf16 ''Enter'') 40,
         InputKeyDown (utf16 ''Enter'') 41]) mount =
   run (typePrompt 28 False 10 @ answer '' a/b '' 20 @ typePrompt 15 False 30 @
        [InputChange (utf16 ''   '')]) mount \<and>
   step (run (typePrompt 28 False 10 @ answer '' a/b '' 20 @ typePrompt 15 False 30 @
        [InputChange (utf16 ''   ''), InputKeyDown (utf16 ''Enter'') 40,
         InputKeyDown (utf16 ''Enter'') 41]) mount) = 3"
proof -
  let ?es = "typePrompt 28 False 10 @ answer '' a/b '' 20 @ typePrompt 15 False 30 @
        [InputChange (utf16 ''   '')]"
  have blank: "trim (currentText (run ?es mount)) = []"
    unfolding blank_second_answer by code_simp
  have "run (map (\<lambda>(k, t). InputKeyDown k t) [(utf16 ''Enter'', 40), (utf16 ''Enter'', 41)])
          (run ?es mount) = run ?es mount"
    using confirm_rejected_is_noop [of "run ?es mount"] blank by blast
  then have "run (?es @ [InputKeyDown (utf16 ''Enter'') 40, InputKeyDown (utf16 ''Enter'') 41]) mount
          = run ?es mount"
    unfolding run_append by simp
  then show ?thesis
    using blank by (simp add: blank_second_answer)
qed

text \<open>
  C7. Claimed: the animation of a system step appends every character of its prompt to
  the current text, in order, once each, until the current text is the prompt, and then
  commits the prompt. With each functional update applied when the component is next
  rendered, the 28 character ticks of the first prompt leave the current text as
  \<open>nter Github Repository Link\<close>: the first character is never appended and the text
  never equals the prompt. The tick after them ends the animation with that text, and
  the line committed afterwards holds the full prompt, which the callback takes from
  \<open>targetText\<close> and not from the current text.
\<close>

theorem first_character_never_typed:
  "currentText (run (replicate 28 (IntervalTick False)) mount) =
     utf16 ''nter Github Repository Link'' \<and>
   currentText (run (replicate 28 (IntervalTick False)) mount) \<noteq> PROMPTS ! 0 \<and>
   interval (run (replicate 28 (IntervalTick False)) mount) =
     Some \<lparr>targetText = PROMPTS ! 0, charIndex = 28\<rparr> \<and>
   currentText (run (replicate 29 (IntervalTick False)) mount) =
     utf16 ''nter Github Repository Link'' \<and>
   history (run (replicate 29 (IntervalTick False) @ [SettleTimeout 10]) mount) =
     [\<lparr>lineId = toString 10, lineType = System, lineText = PROMPTS ! 0\<rparr>]"
  by code_simp

text \<open>
  C8. Along any run from the start, answer \<open>i\<close> is written at most once, and exactly
  once as soon as \<open>step\<close> has passed \<open>2 * i + 1\<close>. A write stores the trimmed current
  text. An event that changes an answer is a write of that answer, at the user step of
  that answer. From a state whose \<open>step\<close> has passed \<open>2 * i + 1\<close>, no run changes
  answer \<open>i\<close>.
\<close>

theorem answers_written_once:
  "slotWrites i es mount \<le> 1 \<and>
   (slotWrites i es mount = 1 \<longleftrightarrow> 2 * i + 2 \<le> step (run es mount)) \<and>
   (i < 3 \<and> writesSlot i e s \<longrightarrow> answerSlot i (fire e s) = trim (currentText s)) \<and>
   (i < 3 \<and> answerSlot i (fire e s) \<noteq> answerSlot i s \<longrightarrow>
      writesSlot i e s \<and> step s = 2 * i + 1) \<and>
   (2 * i + 2 \<le> step s \<longrightarrow> answerSlot i (run es s) = answerSlot i s)"
proof -
  have m: "step mount = 0"
    by (simp add: mount_def initial_def autoTypeEffect_def)
  have c: "slotWrites i es mount = (if 2 * i + 2 \<le> step (run es mount) then 1 else 0)"
    using slotWrites_count [OF wf_mount, of i es] m by simp
  show ?thesis
    using c writesSlot_value [of i e s] slot_change_is_write [of i e s]
      writesSlot_step [of i e s] slot_fixed_run [of i s es]
    by auto
qed

theorem answers_written_once_witness:
  "slotWrites 0 session mount = 1 \<and> slotWrites 1 session mount = 1 \<and>
   slotWrites 2 session mount = 1 \<and>
   answerSlot 0 (run (session @ [ButtonClick, AgentTimeout]) mount) = utf16 ''a/b'' \<and>
   answerSlot 1 (run (session @ [ButtonClick, AgentTimeout]) mount) = utf16 ''T R'' \<and>
   answerSlot 2 (run (session @ [ButtonClick, AgentTimeout]) mount) = utf16 ''Ada''"
proof -
  have six: "step (run session mount) = 6"
    by (simp add: session_final)
  have fixed: "answerSlot i (run [ButtonClick, AgentTimeout] (run session mount)) =
               answerSlot i (run session mount)" if "i < 3" for i
    using answers_written_once [of i "[ButtonClick, AgentTimeout]" undefined "run session mount"]
      six that by simp
  show ?thesis
    using answers_written_once [of 0 session] answers_written_once [of 1 session]
      answers_written_once [of 2 session] six fixed [of 0] fixed [of 1] fixed [of 2]
    by (simp add: run_append) (simp add: session_final answerSlot_def)
qed

text \<open>
  C9. A click on the enabled button starts loading and disables the button at once.
  Once loading has started, it stays started and the button stays disabled after any
  events. In a reachable state the button is enabled exactly when \<open>step\<close> is 6 and
  loading has not started: never before the last step, and with the three answers
  present from the moment the last step is reached.
\<close>

theorem running_is_permanent:
  "(isButtonEnabled s \<longrightarrow>
      isLoading (fire ButtonClick s) \<and> \<not> isButtonEnabled (fire ButtonClick s)) \<and>
   (isLoading s \<longrightarrow> isLoading (run es s) \<and> \<not> isButtonEnabled (run es s)) \<and>
   (isButtonEnabled (run es mount) \<longleftrightarrow>
      step (run es mount) = 6 \<and> \<not> isLoading (run es mount))"
proof -
  have a: "isButtonEnabled s \<longrightarrow>
      isLoading (fire ButtonClick s) \<and> \<not> isButtonEnabled (fire ButtonClick s)"
    by (simp add: isButtonEnabled_def handleRunAgent_def)
  have b: "isLoading s \<longrightarrow> isLoading (run es s) \<and> \<not> isButtonEnabled (run es s)"
    using isLoading_run [of s es] by (simp add: isButtonEnabled_def)
  have c: "isButtonEnabled (run es mount) \<longleftrightarrow>
      step (run es mount) = 6 \<and> \<not> isLoading (run es mount)"
    using wf_reachable [of es] by (auto simp: wf_def isButtonEnabled_def)
  show ?thesis using a b c by blast
qed

theorem running_is_permanent_witness:
  "\<not> isButtonEnabled mount \<and> isButtonEnabled (run session mount) \<and>
   isLoading (run (session @ [ButtonClick]) mount) \<and>
   \<not> isButtonEnabled (run (session @ [ButtonClick]) mount) \<and>
   isLoading (run (session @ [ButtonClick] @ [AgentTimeout, ButtonClick]) mount) \<and>
   \<not> isButtonEnabled (run (session @ [ButtonClick] @ [AgentTimeout, ButtonClick]) mount)"
proof -
  have en: "isButtonEnabled (run session mount)"
    by (simp add: session_final isButtonEnabled_def utf16_def)
  have first: "\<not> isButtonEnabled mount"
    by (simp add: isButtonEnabled_def mount_def initial_def autoTypeEffect_def)
  have click: "run (session @ [ButtonClick]) mount = fire ButtonClick (run session mount)"
    by (simp add: run_append)
  have "isLoading (run (session @ [ButtonClick]) mount) \<and>
        \<not> isButtonEnabled (run (session @ [ButtonClick]) mount)"
    using running_is_permanent [of "run session mount"] en unfolding click by blast
  moreover from this have
    "isLoading (run [AgentTimeout, ButtonClick] (run (session @ [ButtonClick]) mount)) \<and>
     \<not> isButtonEnabled (run [AgentTimeout, ButtonClick] (run (session @ [ButtonClick]) mount))"
    using running_is_permanent [of "run (session @ [ButtonClick]) mount" "[AgentTimeout, ButtonClick]"]
    by blast
  ultimately show ?thesis
    using en first by (simp only: run_append) simp
qed

text \<open>
  C10. In every reachable state with an odd \<open>step\<close> the typing flag is down, no interval
  is live and no commit is pending. A change event that alters a reachable state
  therefore finds no animation writing. An event raises the flag only by entering an
  even step, with the current text cleared.
\<close>

theorem no_typing_on_user_step:
  "(step (run es mount) mod 2 \<noteq> 0 \<longrightarrow>
      \<not> isTyping (run es mount) \<and> interval (run es mount) = None \<and>
      timeouts (run es mount) = []) \<and>
   (fire (InputChange v) (run es mount) \<noteq> run es mount \<longrightarrow>
      \<not> isTyping (run es mount) \<and> interval (run es mount) = None) \<and>
   (\<not> isTyping s \<and> isTyping (fire e s) \<longrightarrow>
      step (fire e s) mod 2 = 0 \<and> step (fire e s) = step s + 1 \<and>
      currentText (fire e s) = [])"
proof -
  have a: "step (run es mount) mod 2 \<noteq> 0 \<longrightarrow>
      \<not> isTyping (run es mount) \<and> interval (run es mount) = None \<and>
      timeouts (run es mount) = []"
    using wf_reachable [of es] by (auto simp: wf_def idlePhase_def split: if_splits)
  have b: "fire (InputChange v) (run es mount) \<noteq> run es mount \<longrightarrow>
      step (run es mount) mod 2 \<noteq> 0"
    by (auto simp: inputMounted_def)
  have c: "\<not> isTyping s \<and> isTyping (fire e s) \<longrightarrow>
      step (fire e s) mod 2 = 0 \<and> step (fire e s) = step s + 1 \<and>
      currentText (fire e s) = []"
    by (cases e)
       (auto simp: intervalCallback_def afterRender_def settleCallback_def autoTypeEffect_def
          autoTypeCleanup_def handleUserInputChange_def handleKeyDown_def handleRunAgent_def
          agentCallback_def Let_def
        split: option.splits list.splits if_splits)
  show ?thesis using a b c by blast
qed

theorem no_typing_on_user_step_witness:
  "step (run (typePrompt 28 False 10) mount) mod 2 \<noteq> 0 \<and>
   \<not> isTyping (run (typePrompt 28 False 10) mount) \<and>
   interval (run (typePrompt 28 False 10) mount) = None \<and>
   fire (InputChange (utf16 ''a'')) (run (typePrompt 28 False 10) mount) \<noteq>
     run (typePrompt 28 False 10) mount"
proof -
  have odd: "step (run (typePrompt 28 False 10) mount) mod 2 \<noteq> 0"
    by (simp add: awaiting_first_answer)
  have ch: "currentText (fire (InputChange (utf16 ''a'')) (run (typePrompt 28 False 10) mount))
            \<noteq> currentText (run (typePrompt 28 False 10) mount)"
    by (simp add: awaiting_first_answer inputMounted_def handleUserInputChange_def utf16_def)
  then have "fire (InputChange (utf16 ''a'')) (run (typePrompt 28 False 10) mount) \<noteq>
     run (typePrompt 28 False 10) mount" by metis
  then show ?thesis
    using odd no_typing_on_user_step [of "typePrompt 28 False 10"] by blast
qed

section \<open>A remark on the handlers and the settle delay\<close>

text \<open>
  \<open>handleKeyDown\<close> does not test the parity of \<open>step\<close>; on a system step it is the
  unmounted input that keeps the event away. In the settle delay of the first prompt a
  key-down event therefore changes nothing, and no run of the component calls the
  handler there. The second and third conjunct evaluate the handler at that state all
  the same: it would commit the typed text as a user line, and the pending callback
  would then commit the system line of the step that was left.
\<close>

lemma handler_called_during_settle:
  "fire (InputKeyDown (utf16 ''Enter'') 11) (run (replicate 29 (IntervalTick False)) mount) =
     run (replicate 29 (IntervalTick False)) mount \<and>
   map lineType (history (fire (SettleTimeout 12)
       (afterRender (run (replicate 29 (IntervalTick False)) mount)
          (handleKeyDown (utf16 ''Enter'') 11 (run (replicate 29 (IntervalTick False)) mount))))) =
     [User, System] \<and>
   step (fire (SettleTimeout 12)
       (afterRender (run (replicate 29 (IntervalTick False)) mount)
          (handleKeyDown (utf16 ''Enter'') 11 (run (replicate 29 (IntervalTick False)) mount)))) = 2"
  unfolding settle_pending by code_simp

end
